theory Spec2Isabelle
  imports Main "HOL-Library.Sublist"
begin

section \<open>JavaScript values, exceptions and the browser environment\<close>

text \<open>
  The program is the API module of the validator (the second part of \<^verbatim>\<open>src/js/main.js\<close>):
  \<^verbatim>\<open>fetchUserReadme\<close>, \<^verbatim>\<open>checkCompletion\<close>, \<^verbatim>\<open>validateUser\<close> and \<^verbatim>\<open>validateUsers\<close>.

  A JavaScript string is modelled by the bytes of its UTF-8 encoding (\<^typ>\<open>string\<close>), so
  strings are well-formed Unicode text: an unpaired surrogate has no such encoding.
  A value obtained from \<^verbatim>\<open>response.json()\<close>, or from a property read on such a value, is
  a \<open>jsvalue\<close>. The payload of a number is never inspected by this program and is left
  out.
\<close>

datatype jsvalue =
    JUndefined
  | JNull
  | JBoolean bool
  | JNumber
  | JString string
  | JArray "jsvalue list"
  | JObject "(string \<times> jsvalue) list"

text \<open>An exception object; the program only ever reads its \<^verbatim>\<open>message\<close>.\<close>

datatype exn = Thrown (message: string)

text \<open>
  Exceptions raised by the language itself rather than by a \<^verbatim>\<open>throw\<close> of the program: reading
  a property of \<^verbatim>\<open>null\<close> or \<^verbatim>\<open>undefined\<close>, and calling a property that is not a function.
  ECMAScript leaves the wording of their messages to the engine, so the wording is part of
  the environment.
\<close>

datatype engine_error =
    CannotReadProperty jsvalue string
  | NotAFunction jsvalue string

text \<open>
  The request as the program determines it: the URL and the headers passed in the
  \<^verbatim>\<open>init\<close> argument of \<^verbatim>\<open>fetch\<close>.
\<close>

record request =
  url :: string
  headers :: "(string \<times> string) list"

text \<open>
  The parts of a \<^verbatim>\<open>Response\<close> that the program reads: \<open>http_status\<close> is its property
  \<^verbatim>\<open>status\<close> (the result object below has a property of that name too), \<open>response_text\<close> and
  \<open>response_json\<close> are the outcomes of \<^verbatim>\<open>await response.text()\<close> and
  \<^verbatim>\<open>await response.json()\<close>: either may reject.
\<close>

record response =
  http_status :: nat
  statusText :: string
  response_text :: "exn + string"
  response_json :: "exn + jsvalue"

text \<open>\<^verbatim>\<open>response.ok\<close>: by the Fetch standard, true exactly for a status in 200..299.\<close>

definition ok :: "response \<Rightarrow> bool" where
  "ok r = (200 \<le> http_status r \<and> http_status r \<le> 299)"

text \<open>
  The environment of one call of \<^verbatim>\<open>validateUser\<close>: what \<^verbatim>\<open>fetch\<close> answers to each request
  (a rejection or a response), and the engine's wording of its own errors.
\<close>

record env =
  fetch :: "request \<Rightarrow> exn + response"
  engine_message :: "engine_error \<Rightarrow> string"

text \<open>
  A computation of the program: the requests it has issued, in order, and its outcome,
  \<open>Inl\<close> for a thrown exception (a rejected promise) and \<open>Inr\<close> for a returned value.
\<close>

type_synonym 'a js = "request list \<times> (exn + 'a)"

definition return_js :: "'a \<Rightarrow> 'a js" where
  "return_js x = ([], Inr x)"

definition throw_js :: "exn \<Rightarrow> 'a js" where
  "throw_js e = ([], Inl e)"

definition bind_js :: "'a js \<Rightarrow> ('a \<Rightarrow> 'b js) \<Rightarrow> 'b js" where
  "bind_js m f =
     (case m of
        (t, Inl e) \<Rightarrow> (t, Inl e)
      | (t, Inr x) \<Rightarrow> (case f x of (t', r) \<Rightarrow> (t @ t', r)))"

definition try_catch :: "'a js \<Rightarrow> (exn \<Rightarrow> 'a js) \<Rightarrow> 'a js" where
  "try_catch m handler =
     (case m of
        (t, Inl e) \<Rightarrow> (case handler e of (t', r) \<Rightarrow> (t @ t', r))
      | (t, Inr x) \<Rightarrow> (t, Inr x))"

definition lift_js :: "exn + 'a \<Rightarrow> 'a js" where
  "lift_js r = ([], r)"

text \<open>\<^verbatim>\<open>await fetch(url, init)\<close>: the request is issued, then the environment answers.\<close>

definition fetch_js :: "env \<Rightarrow> request \<Rightarrow> response js" where
  "fetch_js e req = ([req], fetch e req)"

definition engine_throw :: "env \<Rightarrow> engine_error \<Rightarrow> exn + 'a" where
  "engine_throw e err = Inl (Thrown (engine_message e err))"

section \<open>Built-in string operations\<close>

text \<open>
  \<^verbatim>\<open>String.prototype.trim\<close> removes the ECMAScript white space and line terminator code
  points from both ends: U+0009..U+000D, U+0020, U+00A0, U+1680, U+2000..U+200A, U+2028,
  U+2029, U+202F, U+205F, U+3000 and U+FEFF, here in UTF-8.
\<close>

definition WhiteSpace :: "string list" where
  "WhiteSpace =
     [[CHR 0x09], [CHR 0x0A], [CHR 0x0B], [CHR 0x0C], [CHR 0x0D], [CHR 0x20],
      [CHR 0xC2, CHR 0xA0],
      [CHR 0xE1, CHR 0x9A, CHR 0x80],
      [CHR 0xE2, CHR 0x80, CHR 0x80], [CHR 0xE2, CHR 0x80, CHR 0x81],
      [CHR 0xE2, CHR 0x80, CHR 0x82], [CHR 0xE2, CHR 0x80, CHR 0x83],
      [CHR 0xE2, CHR 0x80, CHR 0x84], [CHR 0xE2, CHR 0x80, CHR 0x85],
      [CHR 0xE2, CHR 0x80, CHR 0x86], [CHR 0xE2, CHR 0x80, CHR 0x87],
      [CHR 0xE2, CHR 0x80, CHR 0x88], [CHR 0xE2, CHR 0x80, CHR 0x89],
      [CHR 0xE2, CHR 0x80, CHR 0x8A],
      [CHR 0xE2, CHR 0x80, CHR 0xA8], [CHR 0xE2, CHR 0x80, CHR 0xA9],
      [CHR 0xE2, CHR 0x80, CHR 0xAF],
      [CHR 0xE2, CHR 0x81, CHR 0x9F],
      [CHR 0xE3, CHR 0x80, CHR 0x80],
      [CHR 0xEF, CHR 0xBB, CHR 0xBF]]"

text \<open>\<open>strip ws s\<close> removes from the front of \<open>s\<close> every leading occurrence of a member of \<open>ws\<close>.\<close>

function strip :: "string list \<Rightarrow> string \<Rightarrow> string" where
  "strip ws s =
     (case find (\<lambda>w. w \<noteq> [] \<and> prefix w s) ws of
        None \<Rightarrow> s
      | Some w \<Rightarrow> strip ws (drop (length w) s))"
  by pat_completeness auto
termination
proof (relation "measure (\<lambda>(ws, s). length s)")
  show "wf (measure (\<lambda>(ws, s). length s))" by simp
next
  fix ws :: "string list" and s w :: string
  assume "find (\<lambda>w. w \<noteq> [] \<and> prefix w s) ws = Some w"
  then have "w \<noteq> []" and "prefix w s"
    by (auto simp: find_Some_iff)
  then have "s \<noteq> []" by auto
  with \<open>w \<noteq> []\<close> show "((ws, drop (length w) s), (ws, s)) \<in> measure (\<lambda>(ws, s). length s)"
    by simp
qed

definition trimStart :: "string \<Rightarrow> string" where
  "trimStart s = strip WhiteSpace s"

definition trimEnd :: "string \<Rightarrow> string" where
  "trimEnd s = rev (strip (map rev WhiteSpace) (rev s))"

definition trim :: "string \<Rightarrow> string" where
  "trim s = trimEnd (trimStart s)"

text \<open>\<^verbatim>\<open>String.prototype.includes\<close>: does \<open>p\<close> occur in \<open>s\<close> as a contiguous run?\<close>

fun startsWith :: "string \<Rightarrow> string \<Rightarrow> bool" where
  "startsWith s [] = True"
| "startsWith [] (c # p) = False"
| "startsWith (d # s) (c # p) = (d = c \<and> startsWith s p)"

fun string_includes :: "string \<Rightarrow> string \<Rightarrow> bool" where
  "string_includes [] p = (p = [])"
| "string_includes (c # s) p = (startsWith (c # s) p \<or> string_includes s p)"

text \<open>The decimal rendering of a number in a template literal (\<^verbatim>\<open>${response.status}\<close>).\<close>

fun ToString :: "nat \<Rightarrow> string" where
  "ToString n =
     (if n < 10 then [''0123456789'' ! n]
      else ToString (n div 10) @ [''0123456789'' ! (n mod 10)])"

text \<open>
  \<^verbatim>\<open>encodeURIComponent\<close>: every byte of the UTF-8 encoding is escaped as \<^verbatim>\<open>%XX\<close> (upper-case
  hexadecimal) except the unreserved characters: letters, digits and \<^verbatim>\<open>- _ . ! ~ * ' ( )\<close>.
  On well-formed text it never throws (its \<^verbatim>\<open>URIError\<close> is for unpaired surrogates only).
\<close>

definition uriUnreserved :: "char set" where
  "uriUnreserved =
     set (''ABCDEFGHIJKLMNOPQRSTUVWXYZabcdefghijklmnopqrstuvwxyz0123456789'' @ ''-_.!~*'()'')"

definition percent :: "char \<Rightarrow> string" where
  "percent c =
     [CHR ''%'', ''0123456789ABCDEF'' ! (of_char c div 16), ''0123456789ABCDEF'' ! (of_char c mod 16)]"

definition encodeURIComponent :: "string \<Rightarrow> string" where
  "encodeURIComponent s = concat (map (\<lambda>c. if c \<in> uriUnreserved then [c] else percent c) s)"

text \<open>
  Truthiness of the optional token (\<^verbatim>\<open>string\<close> or \<^verbatim>\<open>null\<close>): \<^verbatim>\<open>null\<close> and the empty string
  are falsy.
\<close>

fun truthy :: "string option \<Rightarrow> bool" where
  "truthy None = False"
| "truthy (Some t) = (t \<noteq> [])"

section \<open>The Fetcher\<close>

definition COMPLETION_PHRASE :: string where
  "COMPLETION_PHRASE = ''You've successfully completed this exercise!''"

definition RATE_LIMIT_ERROR :: string where
  "RATE_LIMIT_ERROR = ''API rate limit exceeded''"

definition CORS_PROXY :: string where
  "CORS_PROXY = ''https://api.allorigins.win/get?url=''"

text \<open>
  The object returned by \<^verbatim>\<open>fetchUserReadme\<close>: \<^verbatim>\<open>{success: true, content}\<close> or
  \<^verbatim>\<open>{success: false, error}\<close>.
\<close>

datatype readme =
    Success (content: jsvalue)
  | Failure (error: string)

text \<open>\<^verbatim>\<open>data.contents\<close>: a property read on the parsed JSON value.\<close>

fun get_contents :: "env \<Rightarrow> jsvalue \<Rightarrow> exn + jsvalue" where
  "get_contents e JUndefined = engine_throw e (CannotReadProperty JUndefined ''contents'')"
| "get_contents e JNull = engine_throw e (CannotReadProperty JNull ''contents'')"
| "get_contents e (JObject kvs) =
     (case map_of kvs ''contents'' of None \<Rightarrow> Inr JUndefined | Some v \<Rightarrow> Inr v)"
| "get_contents e v = Inr JUndefined"

text \<open>
  The three values that \<^verbatim>\<open>fetchUserReadme\<close> computes before its requests: \<^verbatim>\<open>url\<close>, \<^verbatim>\<open>headers\<close>
  and \<^verbatim>\<open>proxyUrl\<close>.
\<close>

definition readme_url :: "string \<Rightarrow> string" where
  "readme_url username =
     ''https://raw.githubusercontent.com/'' @ username
       @ ''/skills-getting-started-with-github-copilot/main/README.md''"

definition request_headers :: "string option \<Rightarrow> (string \<times> string) list" where
  "request_headers token =
     (if truthy token then [(''Authorization'', ''token '' @ the token)] else [])"

definition proxy_url :: "string \<Rightarrow> string" where
  "proxy_url target = CORS_PROXY @ encodeURIComponent target"

text \<open>The body of the \<^verbatim>\<open>try\<close> block of \<^verbatim>\<open>fetchUserReadme\<close>.\<close>

definition fetchUserReadme_try :: "env \<Rightarrow> string \<Rightarrow> string option \<Rightarrow> readme js" where
  "fetchUserReadme_try e username token =
     (let url = readme_url username;
          headers = request_headers token
      in bind_js (fetch_js e \<lparr>url = url, headers = headers\<rparr>) (\<lambda>response.
           if \<not> ok response then
             if http_status response = 403 then throw_js (Thrown RATE_LIMIT_ERROR)
             else if http_status response = 404 then throw_js (Thrown ''Repository or README not found'')
             else
               let proxyUrl = proxy_url url
               in bind_js (fetch_js e \<lparr>url = proxyUrl, headers = []\<rparr>) (\<lambda>response.
                    if \<not> ok response then
                      throw_js (Thrown (''HTTP '' @ ToString (http_status response) @ '': ''
                                          @ statusText response))
                    else
                      bind_js (lift_js (response_json response)) (\<lambda>data.
                      bind_js (lift_js (get_contents e data)) (\<lambda>contents.
                        return_js (Success contents))))
           else
             bind_js (lift_js (response_text response)) (\<lambda>content.
               return_js (Success (JString content)))))"

text \<open>
  \<^verbatim>\<open>fetchUserReadme\<close>: the \<^verbatim>\<open>catch\<close> clause turns every exception of the body into
  \<^verbatim>\<open>{success: false, error: error.message}\<close> (the \<^verbatim>\<open>console.error\<close> line only logs).
\<close>

definition fetchUserReadme :: "env \<Rightarrow> string \<Rightarrow> string option \<Rightarrow> readme js" where
  "fetchUserReadme e username token =
     try_catch (fetchUserReadme_try e username token)
       (\<lambda>error. return_js (Failure (message error)))"

text \<open>
  \<^verbatim>\<open>checkCompletion(content)\<close> is \<^verbatim>\<open>content.includes(COMPLETION_PHRASE)\<close>. On a string this is
  the substring test; on an array it is \<^verbatim>\<open>Array.prototype.includes\<close>, membership of the
  phrase among the elements; \<^verbatim>\<open>undefined\<close> and \<^verbatim>\<open>null\<close> have no properties; on any other
  value the property \<^verbatim>\<open>includes\<close> is not a function.
\<close>

fun checkCompletion :: "env \<Rightarrow> jsvalue \<Rightarrow> exn + bool" where
  "checkCompletion e (JString s) = Inr (string_includes s COMPLETION_PHRASE)"
| "checkCompletion e (JArray vs) = Inr (JString COMPLETION_PHRASE \<in> set vs)"
| "checkCompletion e JUndefined = engine_throw e (CannotReadProperty JUndefined ''includes'')"
| "checkCompletion e JNull = engine_throw e (CannotReadProperty JNull ''includes'')"
| "checkCompletion e v = engine_throw e (NotAFunction v ''includes'')"

text \<open>The result object \<^verbatim>\<open>{username, status, details}\<close>.\<close>

record validation_result =
  username :: string
  status :: string
  details :: string

text \<open>The body of the \<^verbatim>\<open>try\<close> block of \<^verbatim>\<open>validateUser\<close>.\<close>

definition validateUser_try :: "env \<Rightarrow> string \<Rightarrow> string option \<Rightarrow> validation_result js" where
  "validateUser_try e trimmedUsername token =
     bind_js (fetchUserReadme e trimmedUsername token) (\<lambda>result.
       case result of
         Failure err \<Rightarrow>
           return_js \<lparr>username = trimmedUsername, status = ''error'', details = err\<rparr>
       | Success c \<Rightarrow>
           bind_js (lift_js (checkCompletion e c)) (\<lambda>isCompleted.
             return_js
               \<lparr>username = trimmedUsername,
                status = (if isCompleted then ''completed'' else ''not-completed''),
                details = (if isCompleted then ''Exercise completed successfully''
                           else ''Completion phrase not found'')\<rparr>))"

definition validateUser :: "env \<Rightarrow> string \<Rightarrow> string option \<Rightarrow> validation_result js" where
  "validateUser e username' token =
     (let trimmedUsername = trim username'
      in if trimmedUsername = [] then
           return_js \<lparr>username = trimmedUsername, status = ''error'', details = ''Invalid username''\<rparr>
         else
           try_catch (validateUser_try e trimmedUsername token)
             (\<lambda>error. return_js
                \<lparr>username = trimmedUsername, status = ''error'', details = message error\<rparr>))"

section \<open>The batch orchestrator\<close>

text \<open>
  The progress callback is code of the caller: a call either returns (\<open>None\<close>; its value is
  ignored) or throws (\<open>Some e\<close>). \<^verbatim>\<open>validateUsers\<close> does not guard the call.
\<close>

type_synonym callback = "nat \<Rightarrow> nat \<Rightarrow> exn option"

text \<open>
  What a run of \<^verbatim>\<open>validateUsers\<close> does, in order. \<open>Batch cs\<close>: the calls of \<^verbatim>\<open>validateUser\<close>
  started for one batch and awaited together, each with its argument and the requests it
  issued (the calls of one batch run concurrently, so their requests are kept per call and
  not interleaved). \<open>Progress a b\<close>: the call \<^verbatim>\<open>progressCallback(a, b)\<close>. \<open>Delay ms\<close>: the
  awaited \<^verbatim>\<open>setTimeout\<close> of \<open>ms\<close> milliseconds.
\<close>

datatype step =
    Batch "(string \<times> request list) list"
  | Progress nat nat
  | Delay nat

definition batchSize :: "string option \<Rightarrow> nat" where
  "batchSize token = (if truthy token then 10 else 5)"

definition delay :: "string option \<Rightarrow> nat" where
  "delay token = (if truthy token then 100 else 500)"

text \<open>\<^verbatim>\<open>xs.slice(a, b)\<close> for \<open>0 \<le> a \<le> b\<close>; the end is clamped to the length.\<close>

definition slice :: "'a list \<Rightarrow> nat \<Rightarrow> nat \<Rightarrow> 'a list" where
  "slice xs a b = take (b - a) (drop a xs)"

text \<open>
  \<^verbatim>\<open>await Promise.all(ps)\<close>: the values in the order of \<open>ps\<close>, or the rejection of a promise
  that rejects (here the first in the list).
\<close>

fun Promise_all :: "(exn + 'a) list \<Rightarrow> exn + 'a list" where
  "Promise_all [] = Inr []"
| "Promise_all (p # ps) =
     (case p of
        Inl e \<Rightarrow> Inl e
      | Inr x \<Rightarrow> (case Promise_all ps of Inl e \<Rightarrow> Inl e | Inr xs \<Rightarrow> Inr (x # xs)))"

text \<open>\<^verbatim>\<open>if (progressCallback) { progressCallback(a, b); }\<close>\<close>

fun call_progress :: "callback option \<Rightarrow> nat \<Rightarrow> nat \<Rightarrow> step list \<times> exn option" where
  "call_progress None a b = ([], None)"
| "call_progress (Some f) a b = ([Progress a b], f a b)"

text \<open>
  The \<^verbatim>\<open>for\<close> loop of \<^verbatim>\<open>validateUsers\<close>, from index \<open>i\<close> with the results accumulated so far.
  \<open>world k\<close> is the environment as the call of \<^verbatim>\<open>validateUser\<close> for \<^verbatim>\<open>usernames[k]\<close> observes
  it, so that the network may answer two entries differently even for the same URL.
\<close>

function validateUsers_loop ::
  "(nat \<Rightarrow> env) \<Rightarrow> string list \<Rightarrow> string option \<Rightarrow> callback option \<Rightarrow> nat
     \<Rightarrow> validation_result list \<Rightarrow> step list \<times> (exn + validation_result list)" where
  "validateUsers_loop world usernames token progressCallback i results =
     (if i < length usernames then
        let batch = slice usernames i (i + batchSize token);
            batchPromises =
              map (\<lambda>(k, u). validateUser (world k) u token) (zip [i..<i + length batch] batch);
            started = Batch (zip batch (map fst batchPromises))
        in (case Promise_all (map snd batchPromises) of
              Inl e \<Rightarrow> ([started], Inl e)
            | Inr batchResults \<Rightarrow>
                (let results' = results @ batchResults
                 in (case call_progress progressCallback (length results') (length usernames) of
                       (ps, Some e) \<Rightarrow> (started # ps, Inl e)
                     | (ps, None) \<Rightarrow>
                         (let ds = (if i + batchSize token < length usernames
                                    then [Delay (delay token)] else [])
                          in (case validateUsers_loop world usernames token progressCallback
                                     (i + batchSize token) results' of
                                (rest, outcome) \<Rightarrow> (started # ps @ ds @ rest, outcome))))))
      else ([], Inr results))"
  by pat_completeness auto
termination
  by (relation "measure (\<lambda>(world, usernames, token, progressCallback, i, results).
                  length usernames - i)")
     (auto simp: batchSize_def)

definition validateUsers ::
  "(nat \<Rightarrow> env) \<Rightarrow> string list \<Rightarrow> string option \<Rightarrow> callback option
     \<Rightarrow> step list \<times> (exn + validation_result list)" where
  "validateUsers world usernames token progressCallback =
     validateUsers_loop world usernames token progressCallback 0 []"

section \<open>Notions used in the statements\<close>

text \<open>The two requests that a call of \<^verbatim>\<open>fetchUserReadme\<close> for the name \<open>n\<close> can issue.\<close>

abbreviation direct_request :: "string \<Rightarrow> string option \<Rightarrow> request" where
  "direct_request n token \<equiv> \<lparr>url = readme_url n, headers = request_headers token\<rparr>"

abbreviation proxy_request :: "string \<Rightarrow> request" where
  "proxy_request n \<equiv> \<lparr>url = proxy_url (readme_url n), headers = []\<rparr>"

text \<open>The two shapes of result object that \<^verbatim>\<open>validateUser\<close> builds.\<close>

abbreviation verdict :: "string \<Rightarrow> bool \<Rightarrow> validation_result" where
  "verdict n isCompleted \<equiv>
     \<lparr>username = n,
      status = (if isCompleted then ''completed'' else ''not-completed''),
      details = (if isCompleted then ''Exercise completed successfully''
                 else ''Completion phrase not found'')\<rparr>"

abbreviation failed :: "string \<Rightarrow> string \<Rightarrow> validation_result" where
  "failed n msg \<equiv> \<lparr>username = n, status = ''error'', details = msg\<rparr>"

text \<open>
  The value that \<^verbatim>\<open>validateUser\<close> returns (\<open>validateUser_snd\<close> below shows that it always
  returns one).
\<close>

definition result_of :: "env \<Rightarrow> string \<Rightarrow> string option \<Rightarrow> validation_result" where
  "result_of e u token = projr (snd (validateUser e u token))"

text \<open>A progress callback that returns from every call; no callback at all counts too.\<close>

fun callback_returns :: "callback option \<Rightarrow> bool" where
  "callback_returns None = True"
| "callback_returns (Some f) = (\<forall>a b. f a b = None)"

text \<open>The username slices of the batches of a run, and the arguments of its progress calls.\<close>

fun batches :: "step list \<Rightarrow> string list list" where
  "batches [] = []"
| "batches (Batch cs # tr) = map fst cs # batches tr"
| "batches (Progress a b # tr) = batches tr"
| "batches (Delay ms # tr) = batches tr"

fun progress_calls :: "step list \<Rightarrow> (nat \<times> nat) list" where
  "progress_calls [] = []"
| "progress_calls (Batch cs # tr) = progress_calls tr"
| "progress_calls (Progress a b # tr) = (a, b) # progress_calls tr"
| "progress_calls (Delay ms # tr) = progress_calls tr"

text \<open>
  The partition that the specification describes: consecutive, non-overlapping slices of
  \<open>n\<close> elements in input order, the last one holding what remains.
\<close>

function consecutive_slices :: "nat \<Rightarrow> 'a list \<Rightarrow> 'a list list" where
  "consecutive_slices n xs =
     (if n = 0 \<or> xs = [] then [] else take n xs # consecutive_slices n (drop n xs))"
  by pat_completeness auto
termination
  by (relation "measure (\<lambda>(n, xs). length xs)") auto

text \<open>
  The rhythm of a run with a progress callback, \<open>k\<close> results being accumulated before it:
  each batch is followed at once by one progress call, whose first argument is the number
  of results accumulated with that batch and whose second argument is \<open>n\<close>; after the call
  comes either the end of the run or a delay of \<open>ms\<close> and the next batch.
\<close>

fun paced :: "nat \<Rightarrow> nat \<Rightarrow> nat \<Rightarrow> step list \<Rightarrow> bool" where
  "paced ms n k (Batch cs # Progress a b # tr) =
     (a = k + length cs \<and> b = n \<and>
      (case tr of
         [] \<Rightarrow> True
       | Delay d # tr' \<Rightarrow> d = ms \<and> paced ms n a tr'
       | _ \<Rightarrow> False))"
| "paced ms n k tr = False"

section \<open>Test doubles\<close>

text \<open>
  Concrete environments for the examples: a wording of the engine's errors, a network that
  gives one answer to the direct requests and one to the proxy, a few responses, callbacks
  and a list of 23 names.
\<close>

definition engine_wording :: "engine_error \<Rightarrow> string" where
  "engine_wording err =
     (case err of
        CannotReadProperty v p \<Rightarrow>
          ''Cannot read properties of '' @ (case v of JNull \<Rightarrow> ''null'' | _ \<Rightarrow> ''undefined'')
            @ '' (reading '' @ [CHR 0x27] @ p @ [CHR 0x27] @ '')''
      | NotAFunction v p \<Rightarrow> ''content.'' @ p @ '' is not a function'')"

definition mock :: "(exn + response) \<Rightarrow> (exn + response) \<Rightarrow> env" where
  "mock direct proxied =
     \<lparr>fetch = (\<lambda>req. if startsWith (url req) CORS_PROXY then proxied else direct),
      engine_message = engine_wording\<rparr>"

definition page :: "nat \<Rightarrow> string \<Rightarrow> string \<Rightarrow> response" where
  "page code reason body =
     \<lparr>http_status = code, statusText = reason, response_text = Inr body,
      response_json = Inl (Thrown ''Unexpected token'')\<rparr>"

definition envelope :: "nat \<Rightarrow> string \<Rightarrow> jsvalue \<Rightarrow> response" where
  "envelope code reason data =
     \<lparr>http_status = code, statusText = reason, response_text = Inr [],
      response_json = Inr data\<rparr>"

definition offline :: "exn + response" where
  "offline = Inl (Thrown ''Failed to fetch'')"

definition readme_done :: string where
  "readme_done = ''# Getting started  '' @ COMPLETION_PHRASE @ '' Great job''"

definition readme_lowercase :: string where
  "readme_lowercase = ''you've successfully completed this exercise!''"

definition site_down :: env where
  "site_down = mock offline offline"

definition site_done :: env where
  "site_done = mock (Inr (page 200 ''OK'' readme_done)) offline"

definition site_lowercase :: env where
  "site_lowercase = mock (Inr (page 200 ''OK'' readme_lowercase)) offline"

definition site_rate_limited :: env where
  "site_rate_limited = mock (Inr (page 403 ''Forbidden'' [])) offline"

definition site_missing :: env where
  "site_missing = mock (Inr (page 404 ''Not Found'' [])) offline"

definition site_proxy_failing :: env where
  "site_proxy_failing =
     mock (Inr (page 500 ''Internal Server Error'' [])) (Inr (envelope 502 ''Bad Gateway'' JNull))"

definition site_proxied :: env where
  "site_proxied =
     mock (Inr (page 500 ''Internal Server Error'' []))
          (Inr (envelope 200 ''OK'' (JObject [(''contents'', JString readme_done)])))"


text \<open>A network that answers one URL only.\<close>

definition site_selective :: env where
  "site_selective =
     \<lparr>fetch = (\<lambda>req. if url req = readme_url ''octocat''
                      then Inr (page 200 ''OK'' readme_done) else offline),
      engine_message = engine_wording\<rparr>"

definition offline_world :: "nat \<Rightarrow> env" where
  "offline_world k = site_down"

definition failing_callback :: callback where
  "failing_callback a b = Some (Thrown ''progress display failed'')"

definition quiet_callback :: callback where
  "quiet_callback a b = None"

definition roster :: "string list" where
  "roster = map (\<lambda>k. ''student'' @ ToString k) [0..<23]"

section \<open>Auxiliary facts\<close>

declare validateUsers_loop.simps [simp del]
declare consecutive_slices.simps [simp del]

lemmas js_defs = Let_def return_js_def throw_js_def bind_js_def try_catch_def lift_js_def fetch_js_def

subsection \<open>Strings\<close>

lemma startsWith_iff: "startsWith s p \<longleftrightarrow> (\<exists>b. s = p @ b)"
  by (induction s p rule: startsWith.induct) auto

lemma string_includes_iff: "string_includes s p \<longleftrightarrow> (\<exists>a b. s = a @ p @ b)"
proof (induction s)
  case Nil
  then show ?case by auto
next
  case (Cons c s)
  show ?case
  proof
    assume "string_includes (c # s) p"
    then consider "startsWith (c # s) p" | "string_includes s p" by auto
    then show "\<exists>a b. c # s = a @ p @ b"
    proof cases
      case 1
      then obtain b where "c # s = p @ b" by (auto simp: startsWith_iff)
      then have "c # s = [] @ p @ b" by simp
      then show ?thesis by blast
    next
      case 2
      then obtain a b where "s = a @ p @ b" using Cons.IH by auto
      then have "c # s = (c # a) @ p @ b" by simp
      then show ?thesis by blast
    qed
  next
    assume "\<exists>a b. c # s = a @ p @ b"
    then obtain a b where ab: "c # s = a @ p @ b" by blast
    show "string_includes (c # s) p"
    proof (cases a)
      case Nil
      with ab have "startsWith (c # s) p" by (auto simp: startsWith_iff)
      then show ?thesis by simp
    next
      case (Cons d a')
      with ab have "s = a' @ p @ b" by simp
      then have "string_includes s p" using Cons.IH by blast
      then show ?thesis by simp
    qed
  qed
qed

subsection \<open>The Fetcher, case by case\<close>

lemma fetchUserReadme_try_direct_rejects:
  "fetch e (direct_request n token) = Inl x \<Longrightarrow>
   fetchUserReadme_try e n token = ([direct_request n token], Inl x)"
  by (simp add: fetchUserReadme_try_def js_defs)

lemma fetchUserReadme_try_ok:
  "fetch e (direct_request n token) = Inr r \<Longrightarrow> ok r \<Longrightarrow>
   fetchUserReadme_try e n token =
     ([direct_request n token], map_sum id (\<lambda>c. Success (JString c)) (response_text r))"
  by (cases "response_text r") (simp_all add: fetchUserReadme_try_def js_defs)

lemma fetchUserReadme_try_403:
  "fetch e (direct_request n token) = Inr r \<Longrightarrow> http_status r = 403 \<Longrightarrow>
   fetchUserReadme_try e n token = ([direct_request n token], Inl (Thrown RATE_LIMIT_ERROR))"
  by (simp add: fetchUserReadme_try_def js_defs ok_def)

lemma fetchUserReadme_try_404:
  "fetch e (direct_request n token) = Inr r \<Longrightarrow> http_status r = 404 \<Longrightarrow>
   fetchUserReadme_try e n token =
     ([direct_request n token], Inl (Thrown ''Repository or README not found''))"
  by (simp add: fetchUserReadme_try_def js_defs ok_def)

lemma fetchUserReadme_try_fallback:
  "fetch e (direct_request n token) = Inr r \<Longrightarrow> \<not> ok r \<Longrightarrow> http_status r \<noteq> 403 \<Longrightarrow>
   http_status r \<noteq> 404 \<Longrightarrow>
   fetchUserReadme_try e n token =
     ([direct_request n token, proxy_request n],
      case fetch e (proxy_request n) of
        Inl x \<Rightarrow> Inl x
      | Inr r2 \<Rightarrow>
          if \<not> ok r2 then Inl (Thrown (''HTTP '' @ ToString (http_status r2) @ '': '' @ statusText r2))
          else (case response_json r2 of
                  Inl x \<Rightarrow> Inl x
                | Inr data \<Rightarrow> map_sum id Success (get_contents e data)))"
proof -
  assume d: "fetch e (direct_request n token) = Inr r" and r: "\<not> ok r" "http_status r \<noteq> 403"
    "http_status r \<noteq> 404"
  show ?thesis
  proof (cases "fetch e (proxy_request n)")
    case (Inl x)
    with d r show ?thesis by (simp add: fetchUserReadme_try_def js_defs)
  next
    case (Inr r2)
    show ?thesis
    proof (cases "ok r2")
      case False
      with d r Inr show ?thesis by (simp add: fetchUserReadme_try_def js_defs)
    next
      case True
      show ?thesis
      proof (cases "response_json r2")
        case (Inl x)
        with d r Inr True show ?thesis by (simp add: fetchUserReadme_try_def js_defs)
      next
        case data: (Inr data)
        with d r Inr True show ?thesis
          by (cases "get_contents e data") (simp_all add: fetchUserReadme_try_def js_defs)
      qed
    qed
  qed
qed


lemma fetchUserReadme_eq:
  "fetchUserReadme e n token =
     (fst (fetchUserReadme_try e n token),
      Inr (case snd (fetchUserReadme_try e n token) of
             Inl x \<Rightarrow> Failure (message x)
           | Inr v \<Rightarrow> v))"
  by (cases "fetchUserReadme_try e n token")
     (simp add: fetchUserReadme_def js_defs split: sum.splits)

lemma validateUser_blank:
  "trim u = [] \<Longrightarrow> validateUser e u token = ([], Inr (failed [] ''Invalid username''))"
  by (simp add: validateUser_def js_defs)

lemma validateUser_eq:
  "trim u \<noteq> [] \<Longrightarrow>
   validateUser e u token =
     (fst (fetchUserReadme_try e (trim u) token),
      Inr (case snd (fetchUserReadme_try e (trim u) token) of
             Inl x \<Rightarrow> failed (trim u) (message x)
           | Inr (Failure m) \<Rightarrow> failed (trim u) m
           | Inr (Success c) \<Rightarrow>
               (case checkCompletion e c of
                  Inl x \<Rightarrow> failed (trim u) (message x)
                | Inr b \<Rightarrow> verdict (trim u) b)))"
  by (simp add: validateUser_def validateUser_try_def fetchUserReadme_eq js_defs
           split: sum.splits readme.splits)

lemma validateUser_returns:
  "\<exists>r. snd (validateUser e u token) = Inr r \<and> username r = trim u
       \<and> status r \<in> {''completed'', ''not-completed'', ''error''}"
proof (cases "trim u = []")
  case True
  then show ?thesis by (simp add: validateUser_blank)
next
  case False
  then show ?thesis
    by (simp add: validateUser_eq split: sum.splits readme.splits)
qed

lemma fetchUserReadme_try_requests:
  "fst (fetchUserReadme_try e n token) = [direct_request n token]
   \<or> fst (fetchUserReadme_try e n token) = [direct_request n token, proxy_request n]"
proof (cases "fetch e (direct_request n token)")
  case (Inl x)
  then show ?thesis by (simp add: fetchUserReadme_try_direct_rejects)
next
  case (Inr r)
  show ?thesis
  proof (cases "ok r")
    case True
    with Inr show ?thesis by (simp add: fetchUserReadme_try_ok)
  next
    case False
    consider "http_status r = 403" | "http_status r = 404"
      | "http_status r \<noteq> 403" "http_status r \<noteq> 404" by blast
    then show ?thesis
    proof cases
      case 1
      with Inr show ?thesis by (simp add: fetchUserReadme_try_403)
    next
      case 2
      with Inr show ?thesis by (simp add: fetchUserReadme_try_404)
    next
      case 3
      with Inr False show ?thesis by (simp add: fetchUserReadme_try_fallback)
    qed
  qed
qed


lemma validateUser_requests:
  "fst (validateUser e u token) = []
   \<or> fst (validateUser e u token) = [direct_request (trim u) token]
   \<or> fst (validateUser e u token) = [direct_request (trim u) token, proxy_request (trim u)]"
proof (cases "trim u = []")
  case True
  then show ?thesis by (simp add: validateUser_blank)
next
  case False
  then show ?thesis
    using fetchUserReadme_try_requests [of e "trim u" token] by (simp add: validateUser_eq)
qed

lemma get_contents_cong:
  "engine_message e1 = engine_message e2 \<Longrightarrow> get_contents e1 d = get_contents e2 d"
  by (cases d) (simp_all add: engine_throw_def)

lemma checkCompletion_cong:
  "engine_message e1 = engine_message e2 \<Longrightarrow> checkCompletion e1 c = checkCompletion e2 c"
  by (cases c) (simp_all add: engine_throw_def)

lemma fetchUserReadme_try_cong:
  assumes d: "fetch e1 (direct_request n token) = fetch e2 (direct_request n token)"
    and p: "fetch e1 (proxy_request n) = fetch e2 (proxy_request n)"
    and m: "engine_message e1 = engine_message e2"
  shows "fetchUserReadme_try e1 n token = fetchUserReadme_try e2 n token"
proof (cases "fetch e1 (direct_request n token)")
  case (Inl x)
  with d have "fetch e2 (direct_request n token) = Inl x" by simp
  with Inl show ?thesis by (simp add: fetchUserReadme_try_direct_rejects)
next
  case (Inr r)
  with d have r2: "fetch e2 (direct_request n token) = Inr r" by simp
  show ?thesis
  proof (cases "ok r")
    case True
    with Inr r2 show ?thesis by (simp add: fetchUserReadme_try_ok)
  next
    case False
    consider "http_status r = 403" | "http_status r = 404"
      | "http_status r \<noteq> 403" "http_status r \<noteq> 404" by blast
    then show ?thesis
    proof cases
      case 1
      with Inr r2 show ?thesis by (simp add: fetchUserReadme_try_403)
    next
      case 2
      with Inr r2 show ?thesis by (simp add: fetchUserReadme_try_404)
    next
      case 3
      with Inr r2 False p show ?thesis
        by (simp add: fetchUserReadme_try_fallback get_contents_cong [OF m] split: sum.splits)
    qed
  qed
qed

subsection \<open>The loop of the orchestrator\<close>

lemma validateUser_snd: "snd (validateUser e u token) = Inr (result_of e u token)"
proof -
  obtain r where "snd (validateUser e u token) = Inr r"
    using validateUser_returns [of e u token] by blast
  then show ?thesis by (simp add: result_of_def)
qed

lemma username_result_of: "username (result_of e u token) = trim u"
proof -
  obtain r where "snd (validateUser e u token) = Inr r" and "username r = trim u"
    using validateUser_returns [of e u token] by blast
  then show ?thesis by (simp add: result_of_def)
qed

lemma Promise_all_validateUser:
  "Promise_all (map snd (map (\<lambda>(k, u). validateUser (world k) u token) kus)) =
     Inr (map (\<lambda>(k, u). result_of (world k) u token) kus)"
  by (induction kus) (auto simp: validateUser_snd)

lemma loop_done:
  "\<not> i < length us \<Longrightarrow> validateUsers_loop world us token cb i rs = ([], Inr rs)"
  by (simp add: validateUsers_loop.simps)

lemma call_progress_returns:
  "callback_returns cb \<Longrightarrow> call_progress cb a b = (fst (call_progress cb a b), None)"
  by (cases cb) auto

lemma loop_step:
  assumes "i < length us" and "callback_returns cb"
  shows "validateUsers_loop world us token cb i rs =
     (let batch = slice us i (i + batchSize token);
          kus = zip [i..<i + length batch] batch;
          rs' = rs @ map (\<lambda>(k, u). result_of (world k) u token) kus;
          next = validateUsers_loop world us token cb (i + batchSize token) rs'
      in (Batch (zip batch (map fst (map (\<lambda>(k, u). validateUser (world k) u token) kus)))
            # fst (call_progress cb (length rs') (length us))
            @ (if i + batchSize token < length us then [Delay (delay token)] else [])
            @ fst next,
          snd next))"
  apply (subst validateUsers_loop.simps)
  apply (simp only: assms(1) if_True Let_def Promise_all_validateUser sum.case)
  apply (subst call_progress_returns [OF assms(2)])
  apply (simp only: prod.case option.case fst_conv snd_conv case_prod_beta)
  done


lemma batchSize_pos: "0 < batchSize token"
  by (simp add: batchSize_def)

lemma slice_take_drop: "slice us i (i + n) = take n (drop i us)"
  by (simp add: slice_def)

lemma zip_upt_split:
  assumes "i < length us" and "0 < n"
  shows "zip [i..<length us] (drop i us) =
           zip [i..<i + length (take n (drop i us))] (take n (drop i us))
             @ zip [i + n..<length us] (drop (i + n) us)"
proof (cases "i + n \<le> length us")
  case True
  then have len: "length (take n (drop i us)) = n" by simp
  have "[i..<length us] = [i..<i + n] @ [i + n..<length us]"
    using True upt_add_eq_append [of i "i + n" "length us - (i + n)"] by simp
  moreover have "drop i us = take n (drop i us) @ drop (i + n) us"
    by (metis append_take_drop_id drop_drop add.commute)
  ultimately have "zip [i..<length us] (drop i us) =
      zip ([i..<i + n] @ [i + n..<length us]) (take n (drop i us) @ drop (i + n) us)"
    by simp
  also have "\<dots> = zip [i..<i + n] (take n (drop i us)) @ zip [i + n..<length us] (drop (i + n) us)"
    by (rule zip_append) (use True in simp)
  finally show ?thesis by (simp only: len)
next
  case False
  then have "take n (drop i us) = drop i us" and "drop (i + n) us = []"
    and "i + length (drop i us) = length us"
    using assms by simp_all
  then show ?thesis by simp
qed

lemma loop_results:
  assumes "callback_returns cb"
  shows "snd (validateUsers_loop world us token cb i rs) =
           Inr (rs @ map (\<lambda>(k, u). result_of (world k) u token)
                       (zip [i..<length us] (drop i us)))"
proof (induction "length us - i" arbitrary: i rs rule: less_induct)
  case less
  show ?case
  proof (cases "i < length us")
    case False
    then show ?thesis by (simp add: loop_done)
  next
    case True
    have "length us - (i + batchSize token) < length us - i"
      using True batchSize_pos [of token] by simp
    note IH = less [OF this]
    show ?thesis
      by (simp add: loop_step [OF True assms] Let_def IH slice_take_drop
            zip_upt_split [OF True batchSize_pos, of token] del: length_take)
  qed
qed


lemma batches_append: "batches (xs @ ys) = batches xs @ batches ys"
  by (induction xs rule: batches.induct) simp_all

lemma progress_calls_append: "progress_calls (xs @ ys) = progress_calls xs @ progress_calls ys"
  by (induction xs rule: progress_calls.induct) simp_all

lemma batches_call_progress: "batches (fst (call_progress cb a b)) = []"
  by (cases cb) simp_all

lemma consecutive_slices_step:
  "0 < n \<Longrightarrow> xs \<noteq> [] \<Longrightarrow>
   consecutive_slices n xs = take n xs # consecutive_slices n (drop n xs)"
  by (subst consecutive_slices.simps) simp

lemma consecutive_slices_Nil: "consecutive_slices n [] = []"
  by (subst consecutive_slices.simps) simp

lemma fst_zip_calls: "map fst (zip b (map g (zip [i..<i + length b] b))) = b"
  by (simp add: map_fst_zip_take)

lemma loop_batches:
  assumes "callback_returns cb"
  shows "batches (fst (validateUsers_loop world us token cb i rs)) =
           consecutive_slices (batchSize token) (drop i us)"
proof (induction "length us - i" arbitrary: i rs rule: less_induct)
  case less
  show ?case
  proof (cases "i < length us")
    case False
    then show ?thesis by (simp add: loop_done consecutive_slices_Nil)
  next
    case True
    have "length us - (i + batchSize token) < length us - i"
      using True batchSize_pos [of token] by simp
    note IH = less [OF this]
    have ne: "drop i us \<noteq> []" using True by simp
    show ?thesis
      by (simp add: loop_step [OF True assms] Let_def IH slice_take_drop batches_append
            batches_call_progress consecutive_slices_step [OF batchSize_pos ne]
            fst_zip_calls add.commute del: length_take)
  qed
qed

lemma concat_consecutive_slices: "0 < n \<Longrightarrow> concat (consecutive_slices n xs) = xs"
proof (induction "length xs" arbitrary: xs rule: less_induct)
  case less
  show ?case
  proof (cases "xs = []")
    case True
    then show ?thesis by (simp add: consecutive_slices_Nil)
  next
    case False
    with less.prems have "length (drop n xs) < length xs" by simp
    from less.hyps [OF this less.prems] False less.prems show ?thesis
      by (simp add: consecutive_slices_step)
  qed
qed

lemma consecutive_slices_sizes:
  "0 < n \<Longrightarrow> b \<in> set (consecutive_slices n xs) \<Longrightarrow> 0 < length b \<and> length b \<le> n"
proof (induction "length xs" arbitrary: xs rule: less_induct)
  case less
  show ?case
  proof (cases "xs = []")
    case True
    with less.prems show ?thesis by (simp add: consecutive_slices_Nil)
  next
    case False
    with less.prems have "length (drop n xs) < length xs" by simp
    note IH = less.hyps [OF this less.prems(1)]
    from less.prems False consider "b = take n xs" | "b \<in> set (consecutive_slices n (drop n xs))"
      by (auto simp: consecutive_slices_step)
    then show ?thesis
    proof cases
      case 1
      with False less.prems show ?thesis by simp
    next
      case 2
      then show ?thesis by (rule IH)
    qed
  qed
qed

lemma consecutive_slices_full:
  "0 < n \<Longrightarrow> b \<in> set (butlast (consecutive_slices n xs)) \<Longrightarrow> length b = n"
proof (induction "length xs" arbitrary: xs rule: less_induct)
  case less
  show ?case
  proof (cases "xs = []")
    case True
    with less.prems show ?thesis by (simp add: consecutive_slices_Nil)
  next
    case False
    with less.prems have "length (drop n xs) < length xs" by simp
    note IH = less.hyps [OF this less.prems(1)]
    show ?thesis
    proof (cases "drop n xs = []")
      case True
      with less.prems False show ?thesis
        by (simp add: consecutive_slices_step consecutive_slices_Nil)
    next
      case more: False
      then have cs: "consecutive_slices n (drop n xs) \<noteq> []"
        using less.prems(1) by (simp add: consecutive_slices_step)
      from less.prems False cs consider "b = take n xs"
        | "b \<in> set (butlast (consecutive_slices n (drop n xs)))"
        by (auto simp: consecutive_slices_step)
      then show ?thesis
      proof cases
        case 1
        with more show ?thesis by simp
      next
        case 2
        then show ?thesis by (rule IH)
      qed
    qed
  qed
qed

lemma consecutive_slices_step_length:
  "0 < n \<Longrightarrow> 0 < length xs \<Longrightarrow>
   consecutive_slices n xs = take n xs # consecutive_slices n (drop n xs)"
  by (simp add: consecutive_slices_step)

lemma consecutive_slices_Nil_length: "length xs = 0 \<Longrightarrow> consecutive_slices n xs = []"
  by (simp add: consecutive_slices_Nil)

lemma slices_23_by_10:
  "length xs = 23 \<Longrightarrow> map length (consecutive_slices 10 xs) = [10, 10, 3]"
  by (simp add: consecutive_slices_step_length consecutive_slices_Nil_length)

lemma slices_23_by_5:
  "length xs = 23 \<Longrightarrow> map length (consecutive_slices 5 xs) = [5, 5, 5, 5, 3]"
  by (simp add: consecutive_slices_step_length consecutive_slices_Nil_length)


lemma loop_step_Some:
  assumes "i < length us" and "\<forall>a b. f a b = None" and "length rs = i"
  shows "\<exists>cs. length cs = min (batchSize token) (length us - i) \<and>
           fst (validateUsers_loop world us token (Some f) i rs) =
             Batch cs # Progress (i + length cs) (length us)
               # (if i + batchSize token < length us
                  then Delay (delay token)
                         # fst (validateUsers_loop world us token (Some f) (i + batchSize token)
                                (rs @ map (\<lambda>(k, u). result_of (world k) u token)
                                   (zip [i..<i + batchSize token] (take (batchSize token) (drop i us)))))
                  else [])"
proof -
  have cb: "callback_returns (Some f)" using assms(2) by simp
  show ?thesis
  proof (cases "i + batchSize token < length us")
    case True
    then have "length (take (batchSize token) (drop i us)) = batchSize token" by simp
    with True assms(3) show ?thesis
      by (simp add: loop_step [OF assms(1) cb] Let_def slice_take_drop del: length_take)
  next
    case False
    then have "validateUsers_loop world us token (Some f) (i + batchSize token) rs' = ([], Inr rs')"
      for rs' by (simp add: loop_done)
    with False assms(1,3) show ?thesis
      by (auto simp add: loop_step [OF assms(1) cb] Let_def slice_take_drop min_def)
  qed
qed

lemma loop_paced:
  assumes "\<forall>a b. f a b = None"
  shows "i < length us \<Longrightarrow> length rs = i \<Longrightarrow>
         paced (delay token) (length us) i (fst (validateUsers_loop world us token (Some f) i rs))"
proof (induction "length us - i" arbitrary: i rs rule: less_induct)
  case less
  obtain cs where cs: "length cs = min (batchSize token) (length us - i)"
    and tr: "fst (validateUsers_loop world us token (Some f) i rs) =
             Batch cs # Progress (i + length cs) (length us)
               # (if i + batchSize token < length us
                  then Delay (delay token)
                         # fst (validateUsers_loop world us token (Some f) (i + batchSize token)
                                (rs @ map (\<lambda>(k, u). result_of (world k) u token)
                                   (zip [i..<i + batchSize token] (take (batchSize token) (drop i us)))))
                  else [])"
    using loop_step_Some [OF less.prems(1) assms less.prems(2)] by blast
  show ?case
  proof (cases "i + batchSize token < length us")
    case False
    with tr show ?thesis by simp
  next
    case True
    have "length us - (i + batchSize token) < length us - i"
      using less.prems(1) batchSize_pos [of token] by simp
    note IH = less.hyps [OF this True]
    have len: "length cs = batchSize token" using cs True by simp
    have "paced (delay token) (length us) (i + batchSize token)
            (fst (validateUsers_loop world us token (Some f) (i + batchSize token)
                   (rs @ map (\<lambda>(k, u). result_of (world k) u token)
                      (zip [i..<i + batchSize token] (take (batchSize token) (drop i us))))))"
      using True less.prems(2) by (intro IH) simp
    with tr True len show ?thesis by simp
  qed
qed

lemma loop_progress:
  assumes "\<forall>a b. f a b = None"
  shows "i < length us \<Longrightarrow> length rs = i \<Longrightarrow>
         (let ps = progress_calls (fst (validateUsers_loop world us token (Some f) i rs))
          in ps \<noteq> [] \<and> sorted_wrt (<) (map fst ps) \<and> (\<forall>p \<in> set ps. i < fst p \<and> snd p = length us)
             \<and> fst (last ps) = length us)"
proof (induction "length us - i" arbitrary: i rs rule: less_induct)
  case less
  obtain cs where cs: "length cs = min (batchSize token) (length us - i)"
    and tr: "fst (validateUsers_loop world us token (Some f) i rs) =
             Batch cs # Progress (i + length cs) (length us)
               # (if i + batchSize token < length us
                  then Delay (delay token)
                         # fst (validateUsers_loop world us token (Some f) (i + batchSize token)
                                (rs @ map (\<lambda>(k, u). result_of (world k) u token)
                                   (zip [i..<i + batchSize token] (take (batchSize token) (drop i us)))))
                  else [])"
    using loop_step_Some [OF less.prems(1) assms less.prems(2)] by blast
  show ?case
  proof (cases "i + batchSize token < length us")
    case False
    with tr cs less.prems batchSize_pos [of token] show ?thesis by (auto simp add: min_def)
  next
    case True
    have "length us - (i + batchSize token) < length us - i"
      using less.prems(1) batchSize_pos [of token] by simp
    note IH = less.hyps [OF this True]
    have len: "length cs = batchSize token" using cs True by simp
    define rest where "rest = progress_calls
            (fst (validateUsers_loop world us token (Some f) (i + batchSize token)
                   (rs @ map (\<lambda>(k, u). result_of (world k) u token)
                      (zip [i..<i + batchSize token] (take (batchSize token) (drop i us))))))"
    have R: "rest \<noteq> [] \<and> sorted_wrt (<) (map fst rest)
          \<and> (\<forall>p \<in> set rest. i + batchSize token < fst p \<and> snd p = length us)
          \<and> fst (last rest) = length us"
      unfolding rest_def using True less.prems(2) IH [of "rs @ map (\<lambda>(k, u). result_of (world k) u token)
                      (zip [i..<i + batchSize token] (take (batchSize token) (drop i us)))"]
      by (simp add: Let_def)
    have ps: "progress_calls (fst (validateUsers_loop world us token (Some f) i rs)) =
                (i + batchSize token, length us) # rest"
      using tr True len by (simp add: rest_def)
    from R batchSize_pos [of token] show ?thesis
      unfolding ps Let_def by auto
  qed
qed

lemma paced_once_per_batch:
  "paced ms n k tr \<Longrightarrow> length (progress_calls tr) = length (batches tr)"
  by (induction ms n k tr rule: paced.induct) (auto split: list.splits step.splits)

lemma loop_callback_throws:
  assumes "i < length us" and "\<forall>a b. f a b = Some x"
  shows "batches (fst (validateUsers_loop world us token (Some f) i rs))
           = [take (batchSize token) (drop i us)]"
  apply (subst validateUsers_loop.simps)
  apply (simp only: assms(1) if_True Let_def Promise_all_validateUser sum.case
           call_progress.simps assms(2) prod.case option.case fst_conv)
  apply (simp add: slice_take_drop fst_zip_calls del: length_take)
  done

section \<open>The Fetcher never throws\<close>



section \<open>The result list of the orchestrator\<close>

text \<open>
  C2, as the code has it. The claim is made for every callback, but \<^verbatim>\<open>validateUsers\<close> calls the
  progress callback unguarded: a callback that throws ends the run with that exception and
  no list is returned (\<open>validateUsers_callback_throws\<close>). For no callback, and for every
  callback that returns from its calls, \<^verbatim>\<open>validateUsers\<close> returns a list as long as the
  input whose \<open>k\<close>-th entry is what \<^verbatim>\<open>validateUser\<close> returns for the \<open>k\<close>-th username, so
  that the usernames of the results are the trimmed input usernames, in input order.
\<close>

theorem validateUsers_returns_results:
  assumes "callback_returns cb"
  shows "\<exists>rs. snd (validateUsers world us token cb) = Inr rs
           \<and> length rs = length us
           \<and> map username rs = map trim us
           \<and> (\<forall>k<length us. snd (validateUser (world k) (us ! k) token) = Inr (rs ! k))"
proof -
  let ?rs = "map (\<lambda>(k, u). result_of (world k) u token) (zip [0..<length us] us)"
  have "snd (validateUsers world us token cb) = Inr ?rs"
    using loop_results [OF assms, of world us token 0 "[]"] by (simp add: validateUsers_def)
  moreover have "length ?rs = length us" by simp
  moreover have "map username ?rs = map trim us"
    by (rule nth_equalityI) (simp_all add: username_result_of)
  moreover have "\<forall>k<length us. snd (validateUser (world k) (us ! k) token) = Inr (?rs ! k)"
    by (simp add: validateUser_snd)
  ultimately show ?thesis by blast
qed

theorem validateUsers_returns_results_witness:
  "callback_returns (Some quiet_callback)
   \<and> (\<exists>rs. snd (validateUsers offline_world [''octocat'', '' hubot ''] None (Some quiet_callback)) = Inr rs
          \<and> length rs = 2
          \<and> map username rs = [''octocat'', ''hubot''])"
proof -
  have h: "callback_returns (Some quiet_callback)" by (simp add: quiet_callback_def)
  have t: "map trim [''octocat'', '' hubot ''] = [''octocat'', ''hubot'']" by code_simp
  from validateUsers_returns_results [OF h, of offline_world "[''octocat'', '' hubot '']" None]
  obtain rs where "snd (validateUsers offline_world [''octocat'', '' hubot ''] None (Some quiet_callback)) = Inr rs"
    and "length rs = length [''octocat'', '' hubot '']"
    and "map username rs = map trim [''octocat'', '' hubot '']"
    by blast
  with h t show ?thesis by (intro conjI exI [of _ rs]) simp_all
qed

text \<open>The claim as stated fails: one username, and a callback that throws.\<close>

theorem validateUsers_callback_throws:
  "snd (validateUsers offline_world [''octocat''] None (Some failing_callback))
     = Inl (Thrown ''progress display failed'')"
  by code_simp

section \<open>The decision policy of the Fetcher\<close>

text \<open>
  C3. For a username that is not blank and a direct request that is answered by a response
  \<open>r\<close>, in this order: a success status (200 to 299) leads to the content check of the body
  text; status 403 gives status \<^verbatim>\<open>'error'\<close> with details \<^verbatim>\<open>API rate limit exceeded\<close> and status
  404 gives \<^verbatim>\<open>'error'\<close> with \<^verbatim>\<open>Repository or README not found\<close>, in both cases with no further
  request; any other status leads to exactly one more request, to the proxy. If the proxy
  answers with a failure status the result is \<^verbatim>\<open>'error'\<close> with details
  \<^verbatim>\<open>HTTP <status>: <statusText>\<close>; if it answers with a success status, the field
  \<^verbatim>\<open>contents\<close> of its JSON body is what the content check is applied to.
\<close>

theorem fetcher_decision_policy:
  assumes "trim u = n" and "n \<noteq> []" and "fetch e (direct_request n token) = Inr r"
  shows
    "(ok r \<longrightarrow> (\<forall>body. response_text r = Inr body \<longrightarrow>
        validateUser e u token =
          ([direct_request n token], Inr (verdict n (string_includes body COMPLETION_PHRASE)))))
     \<and> (http_status r = 403 \<longrightarrow>
          validateUser e u token =
            ([direct_request n token], Inr (failed n ''API rate limit exceeded'')))
     \<and> (http_status r = 404 \<longrightarrow>
          validateUser e u token =
            ([direct_request n token], Inr (failed n ''Repository or README not found'')))
     \<and> (\<not> ok r \<and> http_status r \<noteq> 403 \<and> http_status r \<noteq> 404 \<longrightarrow>
          fst (validateUser e u token) = [direct_request n token, proxy_request n]
          \<and> (\<forall>r2. fetch e (proxy_request n) = Inr r2 \<longrightarrow>
                (\<not> ok r2 \<longrightarrow>
                   snd (validateUser e u token) =
                     Inr (failed n (''HTTP '' @ ToString (http_status r2) @ '': '' @ statusText r2)))
                \<and> (ok r2 \<longrightarrow> (\<forall>data c. response_json r2 = Inr data \<longrightarrow>
                      get_contents e data = Inr c \<longrightarrow>
                      snd (validateUser e u token) =
                        Inr (case checkCompletion e c of
                               Inl x \<Rightarrow> failed n (message x)
                             | Inr isCompleted \<Rightarrow> verdict n isCompleted)))))"
proof -
  have ne: "trim u \<noteq> []" using assms(1,2) by simp
  note d = assms(3)
  show ?thesis
  proof (intro conjI impI allI)
    fix body assume "ok r" "response_text r = Inr body"
    with d show "validateUser e u token =
          ([direct_request n token], Inr (verdict n (string_includes body COMPLETION_PHRASE)))"
      using assms(1) by (simp add: validateUser_eq [OF ne] fetchUserReadme_try_ok)
  next
    assume "http_status r = 403"
    with d show "validateUser e u token =
            ([direct_request n token], Inr (failed n ''API rate limit exceeded''))"
      using assms(1)
      by (simp add: validateUser_eq [OF ne] fetchUserReadme_try_403 RATE_LIMIT_ERROR_def)
  next
    assume "http_status r = 404"
    with d show "validateUser e u token =
            ([direct_request n token], Inr (failed n ''Repository or README not found''))"
      using assms(1) by (simp add: validateUser_eq [OF ne] fetchUserReadme_try_404)
  next
    assume "\<not> ok r \<and> http_status r \<noteq> 403 \<and> http_status r \<noteq> 404"
    with d show "fst (validateUser e u token) = [direct_request n token, proxy_request n]"
      using assms(1) by (simp add: validateUser_eq [OF ne] fetchUserReadme_try_fallback)
  next
    fix r2
    assume "\<not> ok r \<and> http_status r \<noteq> 403 \<and> http_status r \<noteq> 404"
      "fetch e (proxy_request n) = Inr r2" "\<not> ok r2"
    with d show "snd (validateUser e u token) =
                     Inr (failed n (''HTTP '' @ ToString (http_status r2) @ '': '' @ statusText r2))"
      using assms(1) by (simp add: validateUser_eq [OF ne] fetchUserReadme_try_fallback)
  next
    fix r2 data c
    assume "\<not> ok r \<and> http_status r \<noteq> 403 \<and> http_status r \<noteq> 404"
      "fetch e (proxy_request n) = Inr r2" "ok r2" "response_json r2 = Inr data"
      "get_contents e data = Inr c"
    with d show "snd (validateUser e u token) =
                        Inr (case checkCompletion e c of
                               Inl x \<Rightarrow> failed n (message x)
                             | Inr isCompleted \<Rightarrow> verdict n isCompleted)"
      using assms(1)
      by (simp add: validateUser_eq [OF ne] fetchUserReadme_try_fallback split: sum.splits)
  qed
qed

text \<open>
  The five branches at concrete responses: 200 with the phrase; 403; 404; 500 with the
  proxy answering 502; 500 with the proxy delivering the README in \<^verbatim>\<open>contents\<close>.
\<close>

theorem fetcher_decision_policy_witness:
  "trim '' alice '' = ''alice''
   \<and> validateUser site_done '' alice '' (Some ''ghp_x'')
       = ([direct_request ''alice'' (Some ''ghp_x'')],
          Inr \<lparr>username = ''alice'', status = ''completed'',
                details = ''Exercise completed successfully''\<rparr>)
   \<and> validateUser site_rate_limited '' alice '' None
       = ([direct_request ''alice'' None],
          Inr \<lparr>username = ''alice'', status = ''error'', details = ''API rate limit exceeded''\<rparr>)
   \<and> validateUser site_missing '' alice '' None
       = ([direct_request ''alice'' None],
          Inr \<lparr>username = ''alice'', status = ''error'',
                details = ''Repository or README not found''\<rparr>)
   \<and> fst (validateUser site_proxy_failing '' alice '' (Some ''ghp_x''))
       = [direct_request ''alice'' (Some ''ghp_x''), proxy_request ''alice'']
   \<and> snd (validateUser site_proxy_failing '' alice '' (Some ''ghp_x''))
       = Inr \<lparr>username = ''alice'', status = ''error'', details = ''HTTP 502: Bad Gateway''\<rparr>
   \<and> snd (validateUser site_proxied '' alice '' (Some ''ghp_x''))
       = Inr \<lparr>username = ''alice'', status = ''completed'',
              details = ''Exercise completed successfully''\<rparr>"
proof -
  let ?u = "'' alice ''" and ?n = "''alice''" and ?tok = "Some ''ghp_x''"
  have t: "trim ?u = ?n" by code_simp
  have n: "?n \<noteq> []" by simp
  have inc: "string_includes readme_done COMPLETION_PHRASE" by code_simp
  have d1: "fetch site_done (direct_request ?n ?tok) = Inr (page 200 ''OK'' readme_done)"
    by code_simp
  have ok1: "ok (page 200 ''OK'' readme_done)" by (simp add: ok_def page_def)
  have tx1: "response_text (page 200 ''OK'' readme_done) = Inr readme_done" by (simp add: page_def)
  from fetcher_decision_policy [OF t n d1] ok1 tx1
  have "validateUser site_done ?u ?tok =
          ([direct_request ?n ?tok], Inr (verdict ?n (string_includes readme_done COMPLETION_PHRASE)))"
    by blast
  with inc have 1: "validateUser site_done ?u ?tok =
          ([direct_request ?n ?tok],
           Inr \<lparr>username = ?n, status = ''completed'', details = ''Exercise completed successfully''\<rparr>)"
    by simp
  have d2: "fetch site_rate_limited (direct_request ?n None) = Inr (page 403 ''Forbidden'' [])"
    by code_simp
  have s2: "http_status (page 403 ''Forbidden'' []) = 403" by (simp add: page_def)
  from fetcher_decision_policy [OF t n d2] s2
  have 2: "validateUser site_rate_limited ?u None =
          ([direct_request ?n None], Inr (failed ?n ''API rate limit exceeded''))"
    by blast
  have d3: "fetch site_missing (direct_request ?n None) = Inr (page 404 ''Not Found'' [])"
    by code_simp
  have s3: "http_status (page 404 ''Not Found'' []) = 404" by (simp add: page_def)
  from fetcher_decision_policy [OF t n d3] s3
  have 3: "validateUser site_missing ?u None =
          ([direct_request ?n None], Inr (failed ?n ''Repository or README not found''))"
    by blast
  have d4: "fetch site_proxy_failing (direct_request ?n ?tok)
              = Inr (page 500 ''Internal Server Error'' [])"
    by code_simp
  have s4: "\<not> ok (page 500 ''Internal Server Error'' [])
            \<and> http_status (page 500 ''Internal Server Error'' []) \<noteq> 403
            \<and> http_status (page 500 ''Internal Server Error'' []) \<noteq> 404"
    by (simp add: ok_def page_def)
  have p4: "fetch site_proxy_failing (proxy_request ?n) = Inr (envelope 502 ''Bad Gateway'' JNull)"
    by code_simp
  have k4: "\<not> ok (envelope 502 ''Bad Gateway'' JNull)" by (simp add: ok_def envelope_def)
  from fetcher_decision_policy [OF t n d4] s4
  have 4: "fst (validateUser site_proxy_failing ?u ?tok) = [direct_request ?n ?tok, proxy_request ?n]"
    by blast
  from fetcher_decision_policy [OF t n d4] s4 p4 k4
  have "snd (validateUser site_proxy_failing ?u ?tok) =
          Inr (failed ?n (''HTTP '' @ ToString (http_status (envelope 502 ''Bad Gateway'' JNull)) @ '': ''
                 @ statusText (envelope 502 ''Bad Gateway'' JNull)))"
    by blast
  moreover have "''HTTP '' @ ToString (http_status (envelope 502 ''Bad Gateway'' JNull)) @ '': ''
                 @ statusText (envelope 502 ''Bad Gateway'' JNull) = ''HTTP 502: Bad Gateway''"
    by code_simp
  ultimately have 5: "snd (validateUser site_proxy_failing ?u ?tok) =
          Inr \<lparr>username = ?n, status = ''error'', details = ''HTTP 502: Bad Gateway''\<rparr>"
    by simp
  let ?env = "envelope 200 ''OK'' (JObject [(''contents'', JString readme_done)])"
  have d6: "fetch site_proxied (direct_request ?n ?tok) = Inr (page 500 ''Internal Server Error'' [])"
    by code_simp
  have p6: "fetch site_proxied (proxy_request ?n) = Inr ?env" by code_simp
  have k6: "ok ?env" by (simp add: ok_def envelope_def)
  have j6: "response_json ?env = Inr (JObject [(''contents'', JString readme_done)])"
    by (simp add: envelope_def)
  have g6: "get_contents site_proxied (JObject [(''contents'', JString readme_done)])
              = Inr (JString readme_done)"
    by simp
  from fetcher_decision_policy [OF t n d6] s4 p6 k6 j6 g6
  have "snd (validateUser site_proxied ?u ?tok) =
          Inr (case checkCompletion site_proxied (JString readme_done) of
                 Inl x \<Rightarrow> failed ?n (message x)
               | Inr isCompleted \<Rightarrow> verdict ?n isCompleted)"
    by blast
  with inc have 6: "snd (validateUser site_proxied ?u ?tok) =
          Inr \<lparr>username = ?n, status = ''completed'', details = ''Exercise completed successfully''\<rparr>"
    by simp
  show ?thesis by (intro conjI t 1 2 3 4 5 6)
qed

section \<open>The content check\<close>

text \<open>
  C4. On a body that is a string, the content check is the exact, case-sensitive substring
  test for \<^verbatim>\<open>You've successfully completed this exercise!\<close>: the check answers whether the
  body is some text, the phrase, some text. A string of the length of the phrase that is
  not the phrase (such as the phrase in another letter case) does not pass. When the README
  was fetched with the string \<open>body\<close>, the result is \<^verbatim>\<open>'completed'\<close> with details
  \<^verbatim>\<open>Exercise completed successfully\<close> if the phrase occurs in \<open>body\<close> and \<^verbatim>\<open>'not-completed'\<close>
  (the specification's \<^verbatim>\<open>not_completed\<close>) with details \<^verbatim>\<open>Completion phrase not found\<close> if not.
\<close>

theorem content_check_exact:
  "checkCompletion e (JString body) = Inr (\<exists>a b. body = a @ COMPLETION_PHRASE @ b)
   \<and> (length body = length COMPLETION_PHRASE \<longrightarrow> body \<noteq> COMPLETION_PHRASE \<longrightarrow>
        checkCompletion e (JString body) = Inr False)
   \<and> (trim u \<noteq> [] \<longrightarrow> snd (fetchUserReadme e (trim u) token) = Inr (Success (JString body)) \<longrightarrow>
        snd (validateUser e u token) =
          Inr (if \<exists>a b. body = a @ COMPLETION_PHRASE @ b
               then \<lparr>username = trim u, status = ''completed'',
                      details = ''Exercise completed successfully''\<rparr>
               else \<lparr>username = trim u, status = ''not-completed'',
                      details = ''Completion phrase not found''\<rparr>))"
proof (intro conjI impI)
  show c: "checkCompletion e (JString body) = Inr (\<exists>a b. body = a @ COMPLETION_PHRASE @ b)"
    by (simp add: string_includes_iff)
  show "checkCompletion e (JString body) = Inr False"
    if "length body = length COMPLETION_PHRASE" "body \<noteq> COMPLETION_PHRASE"
  proof -
    have "\<not> (\<exists>a b. body = a @ COMPLETION_PHRASE @ b)"
    proof
      assume "\<exists>a b. body = a @ COMPLETION_PHRASE @ b"
      then obtain a b where ab: "body = a @ COMPLETION_PHRASE @ b" by blast
      then have "length body = length a + length COMPLETION_PHRASE + length b" by simp
      with that(1) have "a = []" "b = []" by simp_all
      with ab that(2) show False by simp
    qed
    with c show ?thesis by simp
  qed
  show "snd (validateUser e u token) =
          Inr (if \<exists>a b. body = a @ COMPLETION_PHRASE @ b
               then \<lparr>username = trim u, status = ''completed'',
                      details = ''Exercise completed successfully''\<rparr>
               else \<lparr>username = trim u, status = ''not-completed'',
                      details = ''Completion phrase not found''\<rparr>)"
    if "trim u \<noteq> []" "snd (fetchUserReadme e (trim u) token) = Inr (Success (JString body))"
  proof -
    from that(2) have "snd (fetchUserReadme_try e (trim u) token) = Inr (Success (JString body))"
      by (simp add: fetchUserReadme_eq split: sum.splits)
    with that(1) show ?thesis
      by (simp add: validateUser_eq string_includes_iff del: checkCompletion.simps add: c)
  qed
qed

text \<open>A README with the phrase in the middle, and one with the phrase in lower case.\<close>

theorem content_check_exact_witness:
  "trim ''octocat'' \<noteq> []
   \<and> snd (fetchUserReadme site_done (trim ''octocat'') None) = Inr (Success (JString readme_done))
   \<and> snd (validateUser site_done ''octocat'' None)
        = Inr \<lparr>username = ''octocat'', status = ''completed'',
               details = ''Exercise completed successfully''\<rparr>
   \<and> length readme_lowercase = length COMPLETION_PHRASE
   \<and> readme_lowercase \<noteq> COMPLETION_PHRASE
   \<and> checkCompletion site_lowercase (JString readme_lowercase) = Inr False
   \<and> snd (fetchUserReadme site_lowercase (trim ''octocat'') None)
        = Inr (Success (JString readme_lowercase))
   \<and> snd (validateUser site_lowercase ''octocat'' None)
        = Inr \<lparr>username = ''octocat'', status = ''not-completed'',
               details = ''Completion phrase not found''\<rparr>"
proof -
  have t: "trim ''octocat'' = ''octocat''" by code_simp
  have n: "trim ''octocat'' \<noteq> []" by (simp add: t)
  have f1: "snd (fetchUserReadme site_done (trim ''octocat'') None)
              = Inr (Success (JString readme_done))"
    by code_simp
  have f2: "snd (fetchUserReadme site_lowercase (trim ''octocat'') None)
              = Inr (Success (JString readme_lowercase))"
    by code_simp
  have l: "length readme_lowercase = length COMPLETION_PHRASE" by code_simp
  have d: "readme_lowercase \<noteq> COMPLETION_PHRASE" by code_simp
  have c1: "checkCompletion site_done (JString readme_done) = Inr True" by code_simp
  note T1 = content_check_exact [of site_done readme_done "''octocat''" None]
  note T2 = content_check_exact [of site_lowercase readme_lowercase "''octocat''" None]
  from T1 c1 have yes: "\<exists>a b. readme_done = a @ COMPLETION_PHRASE @ b" by simp
  from T2 l d have c2: "checkCompletion site_lowercase (JString readme_lowercase) = Inr False"
    by blast
  with T2 have no: "\<not> (\<exists>a b. readme_lowercase = a @ COMPLETION_PHRASE @ b)" by simp
  from T1 n f1 have "snd (validateUser site_done ''octocat'' None) =
          Inr (if \<exists>a b. readme_done = a @ COMPLETION_PHRASE @ b
               then \<lparr>username = trim ''octocat'', status = ''completed'',
                      details = ''Exercise completed successfully''\<rparr>
               else \<lparr>username = trim ''octocat'', status = ''not-completed'',
                      details = ''Completion phrase not found''\<rparr>)"
    by blast
  with yes have 1: "snd (validateUser site_done ''octocat'' None)
        = Inr \<lparr>username = ''octocat'', status = ''completed'',
               details = ''Exercise completed successfully''\<rparr>"
    by (simp only: if_True t)
  from T2 n f2 have "snd (validateUser site_lowercase ''octocat'' None) =
          Inr (if \<exists>a b. readme_lowercase = a @ COMPLETION_PHRASE @ b
               then \<lparr>username = trim ''octocat'', status = ''completed'',
                      details = ''Exercise completed successfully''\<rparr>
               else \<lparr>username = trim ''octocat'', status = ''not-completed'',
                      details = ''Completion phrase not found''\<rparr>)"
    by blast
  with no have 2: "snd (validateUser site_lowercase ''octocat'' None)
        = Inr \<lparr>username = ''octocat'', status = ''not-completed'',
               details = ''Completion phrase not found''\<rparr>"
    by (simp only: if_False t)
  show ?thesis by (intro conjI n f1 1 l d c2 f2 2)
qed

section \<open>Batches\<close>

text \<open>
  C5, as the code has it. The claim is made for every run, but a progress callback that
  throws ends the run after the first batch (\<open>validateUsers_batches_cut_short\<close>). In a run
  without a callback, or with a callback that returns from its calls, the batches of
  \<^verbatim>\<open>validateUsers\<close> are the consecutive slices of the input list, of 10 usernames when the
  token is present (neither \<^verbatim>\<open>null\<close> nor empty) and of 5 when it is not: put together they
  give the input list, every batch but the last has exactly that size, and no batch is
  empty or larger. 23 usernames make batches of sizes 10, 10, 3 with a token and
  5, 5, 5, 5, 3 without.
\<close>

theorem validateUsers_batch_sizes:
  assumes "callback_returns cb"
  shows "let B = batches (fst (validateUsers world us token cb));
             n = (if truthy token then 10 else 5)
         in B = consecutive_slices n us
            \<and> concat B = us
            \<and> (\<forall>b \<in> set (butlast B). length b = n)
            \<and> (\<forall>b \<in> set B. 0 < length b \<and> length b \<le> n)
            \<and> (length us = 23 \<longrightarrow>
                  map length B = (if truthy token then [10, 10, 3] else [5, 5, 5, 5, 3]))"
proof -
  define n :: nat where "n = (if truthy token then 10 else 5)"
  have n: "batchSize token = n" "0 < n" by (simp_all add: n_def batchSize_def)
  have B: "batches (fst (validateUsers world us token cb)) = consecutive_slices n us"
    using loop_batches [OF assms, of world us token 0 "[]"] by (simp add: validateUsers_def n)
  have 1: "concat (consecutive_slices n us) = us"
    by (rule concat_consecutive_slices [OF n(2)])
  have 2: "\<forall>b \<in> set (butlast (consecutive_slices n us)). length b = n"
    using consecutive_slices_full [OF n(2)] by blast
  have 3: "\<forall>b \<in> set (consecutive_slices n us). 0 < length b \<and> length b \<le> n"
    using consecutive_slices_sizes [OF n(2)] by blast
  have 4: "length us = 23 \<longrightarrow>
             map length (consecutive_slices n us) = (if truthy token then [10, 10, 3] else [5, 5, 5, 5, 3])"
    by (simp add: n_def slices_23_by_10 slices_23_by_5)
  from 1 2 3 4 show ?thesis
    unfolding Let_def B n_def [symmetric] by blast
qed

theorem validateUsers_batch_sizes_witness:
  "callback_returns None \<and> callback_returns (Some quiet_callback) \<and> length roster = 23
   \<and> map length (batches (fst (validateUsers offline_world roster (Some ''ghp_x'') None)))
        = [10, 10, 3]
   \<and> map length (batches (fst (validateUsers offline_world roster None (Some quiet_callback))))
        = [5, 5, 5, 5, 3]"
proof -
  have a: "callback_returns None" by simp
  have b: "callback_returns (Some quiet_callback)" by (simp add: quiet_callback_def)
  have l: "length roster = 23" by (simp add: roster_def)
  have tk: "truthy (Some ''ghp_x'')" "\<not> truthy None" by simp_all
  from validateUsers_batch_sizes [OF a, of offline_world roster "Some ''ghp_x''", unfolded Let_def]
  have "length roster = 23 \<longrightarrow>
          map length (batches (fst (validateUsers offline_world roster (Some ''ghp_x'') None)))
            = (if truthy (Some ''ghp_x'') then [10, 10, 3] else [5, 5, 5, 5, 3])"
    by blast
  with l tk(1)
  have 1: "map length (batches (fst (validateUsers offline_world roster (Some ''ghp_x'') None)))
             = [10, 10, 3]"
    by simp
  from validateUsers_batch_sizes [OF b, of offline_world roster None, unfolded Let_def]
  have "length roster = 23 \<longrightarrow>
          map length (batches (fst (validateUsers offline_world roster None (Some quiet_callback))))
            = (if truthy None then [10, 10, 3] else [5, 5, 5, 5, 3])"
    by blast
  with l tk(2)
  have 2: "map length (batches (fst (validateUsers offline_world roster None (Some quiet_callback))))
             = [5, 5, 5, 5, 3]"
    by simp
  show ?thesis by (intro conjI a b l 1 2)
qed

text \<open>
  The claim as stated fails: with the 23 usernames and a callback that throws, only the
  first batch is run, of 10 usernames with a token and of 5 without.
\<close>

theorem validateUsers_batches_cut_short:
  "length roster = 23
   \<and> map length (batches (fst (validateUsers offline_world roster (Some ''ghp_x'')
                                  (Some failing_callback)))) = [10]
   \<and> map length (batches (fst (validateUsers offline_world roster None
                                  (Some failing_callback)))) = [5]"
proof -
  have l: "length roster = 23" by (simp add: roster_def)
  have f: "\<forall>a b. failing_callback a b = Some (Thrown ''progress display failed'')"
    by (simp add: failing_callback_def)
  have a: "map length (batches (fst (validateUsers offline_world roster (Some ''ghp_x'')
                                       (Some failing_callback)))) = [10]"
    using l by (simp add: validateUsers_def loop_callback_throws [OF _ f] batchSize_def)
  have b: "map length (batches (fst (validateUsers offline_world roster None
                                       (Some failing_callback)))) = [5]"
    using l by (simp add: validateUsers_def loop_callback_throws [OF _ f] batchSize_def)
  show ?thesis by (intro conjI l a b)
qed

section \<open>Progress reports\<close>

text \<open>
  C6, as the code has it. The claim is made for every supplied callback, but a callback
  that throws ends the run at its first call (\<open>validateUsers_progress_cut_short\<close>). For a
  list that is not empty and a callback that returns from its calls: every batch is followed
  at once by one call of the callback, whose first argument is the number of results
  accumulated with that batch and whose second argument is the length of the input, and the
  delay before the next batch comes after the call; there are as many calls as batches; the
  first arguments increase strictly; the first argument of the last call is the length of
  the input.
\<close>

theorem validateUsers_progress_calls:
  assumes "us \<noteq> []" and "\<forall>a b. f a b = None"
  shows "let tr = fst (validateUsers world us token (Some f)); ps = progress_calls tr
         in paced (delay token) (length us) 0 tr
            \<and> length ps = length (batches tr)
            \<and> sorted_wrt (<) (map fst ps)
            \<and> (\<forall>p \<in> set ps. snd p = length us)
            \<and> fst (last ps) = length us"
proof -
  have pos: "0 < length us" using assms(1) by simp
  have p: "paced (delay token) (length us) 0 (fst (validateUsers world us token (Some f)))"
    using loop_paced [OF assms(2) pos, of "[]" token world] by (simp add: validateUsers_def)
  note q = loop_progress [OF assms(2) pos, of "[]" world token, unfolded Let_def, simplified,
      folded validateUsers_def]
  from p paced_once_per_batch [OF p] q show ?thesis
    unfolding Let_def validateUsers_def by blast
qed

text \<open>Seven usernames without a token: a batch of 5, a delay of 500 ms, a batch of 2.\<close>

theorem validateUsers_progress_calls_witness:
  "take 7 roster \<noteq> [] \<and> (\<forall>a b. quiet_callback a b = None)
   \<and> progress_calls (fst (validateUsers offline_world (take 7 roster) None (Some quiet_callback)))
        = [(5, 7), (7, 7)]
   \<and> paced 500 7 0 (fst (validateUsers offline_world (take 7 roster) None (Some quiet_callback)))"
proof -
  have a: "take 7 roster \<noteq> []" by code_simp
  have b: "\<forall>a b. quiet_callback a b = None" by (simp add: quiet_callback_def)
  have l: "length (take 7 roster) = 7" by (simp add: roster_def)
  have d: "delay None = 500" by (simp add: delay_def)
  have c: "progress_calls (fst (validateUsers offline_world (take 7 roster) None (Some quiet_callback)))
        = [(5, 7), (7, 7)]" by code_simp
  from validateUsers_progress_calls [OF a b, of offline_world None, unfolded Let_def l d]
  have p: "paced 500 7 0 (fst (validateUsers offline_world (take 7 roster) None (Some quiet_callback)))"
    by (rule conjunct1)
  show ?thesis by (intro conjI a b c p)
qed

text \<open>
  The claim as stated fails: with the same seven usernames and a callback that throws, the
  callback is called once, with 5, and the second batch is never run.
\<close>

theorem validateUsers_progress_cut_short:
  "progress_calls (fst (validateUsers offline_world (take 7 roster) None (Some failing_callback)))
     = [(5, 7)]"
  by code_simp

section \<open>Blank usernames\<close>

text \<open>
  C7. For every token, \<^verbatim>\<open>validateUser\<close> applied to a username that is empty, or empty once
  trimmed, returns \<^verbatim>\<open>{username: "", status: 'error', details: 'Invalid username'}\<close> and issues
  no request at all.
\<close>

theorem validateUser_blank_username:
  "trim u = [] \<Longrightarrow>
   validateUser e u token =
     ([], Inr \<lparr>username = [], status = ''error'', details = ''Invalid username''\<rparr>)"
  by (rule validateUser_blank)

text \<open>The empty string, and a string of a space, a tab and a no-break space.\<close>

theorem validateUser_blank_username_witness:
  "trim [] = [] \<and> trim [CHR 0x20, CHR 0x09, CHR 0xC2, CHR 0xA0] = []
   \<and> validateUser site_done [] (Some ''ghp_x'') =
        ([], Inr \<lparr>username = [], status = ''error'', details = ''Invalid username''\<rparr>)
   \<and> validateUser site_done [CHR 0x20, CHR 0x09, CHR 0xC2, CHR 0xA0] None =
        ([], Inr \<lparr>username = [], status = ''error'', details = ''Invalid username''\<rparr>)"
proof -
  have a: "trim [] = []" by code_simp
  have b: "trim [CHR 0x20, CHR 0x09, CHR 0xC2, CHR 0xA0] = []" by code_simp
  show ?thesis
    by (intro conjI a b validateUser_blank_username [OF a] validateUser_blank_username [OF b])
qed

section \<open>Determinism\<close>

text \<open>
  C8. Two calls of \<^verbatim>\<open>validateUser\<close> with the same username and token, one observing the
  environment \<open>e1\<close> and one \<open>e2\<close> of the same engine, give the same result (and issue the
  same requests) as soon as the resource provider answers alike in both, on the direct
  request and on the proxy request for that username; in particular when it gives the same
  response to every request.
\<close>

theorem validateUser_deterministic:
  assumes "fetch e1 (direct_request (trim u) token) = fetch e2 (direct_request (trim u) token)"
    and "fetch e1 (proxy_request (trim u)) = fetch e2 (proxy_request (trim u))"
    and "engine_message e1 = engine_message e2"
  shows "validateUser e1 u token = validateUser e2 u token"
proof (cases "trim u = []")
  case True
  then show ?thesis by (simp add: validateUser_blank)
next
  case False
  then show ?thesis
    by (simp add: validateUser_eq fetchUserReadme_try_cong [OF assms]
          checkCompletion_cong [OF assms(3)] cong: sum.case_cong readme.case_cong)
qed

text \<open>Two networks that differ, but not on the requests for this username.\<close>

theorem validateUser_deterministic_witness:
  "fetch site_done (direct_request (trim ''octocat'') None)
     = fetch site_selective (direct_request (trim ''octocat'') None)
   \<and> fetch site_done (proxy_request (trim ''octocat''))
     = fetch site_selective (proxy_request (trim ''octocat''))
   \<and> engine_message site_done = engine_message site_selective
   \<and> validateUser site_done ''octocat'' None = validateUser site_selective ''octocat'' None
   \<and> snd (validateUser site_done ''octocat'' None)
     = Inr \<lparr>username = ''octocat'', status = ''completed'',
            details = ''Exercise completed successfully''\<rparr>"
proof -
  have a: "fetch site_done (direct_request (trim ''octocat'') None)
             = fetch site_selective (direct_request (trim ''octocat'') None)"
    by code_simp
  have b: "fetch site_done (proxy_request (trim ''octocat''))
             = fetch site_selective (proxy_request (trim ''octocat''))"
    by code_simp
  have c: "engine_message site_done = engine_message site_selective"
    by (simp add: site_done_def mock_def site_selective_def)
  have d: "snd (validateUser site_done ''octocat'' None)
             = Inr \<lparr>username = ''octocat'', status = ''completed'',
                    details = ''Exercise completed successfully''\<rparr>"
    by code_simp
  have e: "validateUser site_done ''octocat'' None = validateUser site_selective ''octocat'' None"
    by (rule validateUser_deterministic [OF a b c])
  show ?thesis by (intro conjI a b c e d)
qed

section \<open>The token and the proxy\<close>

text \<open>
  C9. Whatever the username, the token and the network, a call of \<^verbatim>\<open>validateUser\<close> issues no
  request, or the direct request alone, or the direct request followed by the proxy
  request. The headers built from the token are those of the direct request; every later
  request has no headers, and the proxy request is the proxy address followed by the
  encoded README URL of the trimmed username. So what is sent to the proxy does not depend
  on the token: two calls for the same username, with any two tokens and on any two
  networks, send the proxy the same request if they both reach it.
\<close>

theorem proxy_request_without_token:
  "(fst (validateUser e u token) = []
    \<or> fst (validateUser e u token) = [\<lparr>url = readme_url (trim u), headers = request_headers token\<rparr>]
    \<or> fst (validateUser e u token) =
         [\<lparr>url = readme_url (trim u), headers = request_headers token\<rparr>,
          \<lparr>url = proxy_url (readme_url (trim u)), headers = []\<rparr>])
   \<and> (\<forall>req \<in> set (drop 1 (fst (validateUser e u token))). headers req = [])
   \<and> (\<forall>e' token'.
         drop 1 (fst (validateUser e u token)) \<noteq> [] \<longrightarrow>
         drop 1 (fst (validateUser e' u token')) \<noteq> [] \<longrightarrow>
         drop 1 (fst (validateUser e u token)) = drop 1 (fst (validateUser e' u token')))"
proof (intro conjI allI impI ballI)
  show "fst (validateUser e u token) = []
    \<or> fst (validateUser e u token) = [\<lparr>url = readme_url (trim u), headers = request_headers token\<rparr>]
    \<or> fst (validateUser e u token) =
         [\<lparr>url = readme_url (trim u), headers = request_headers token\<rparr>,
          \<lparr>url = proxy_url (readme_url (trim u)), headers = []\<rparr>]"
    by (rule validateUser_requests)
next
  fix req assume "req \<in> set (drop 1 (fst (validateUser e u token)))"
  then show "headers req = []"
    using validateUser_requests [of e u token] by auto
next
  fix e' token'
  assume "drop 1 (fst (validateUser e u token)) \<noteq> []"
    and "drop 1 (fst (validateUser e' u token')) \<noteq> []"
  then show "drop 1 (fst (validateUser e u token)) = drop 1 (fst (validateUser e' u token'))"
    using validateUser_requests [of e u token] validateUser_requests [of e' u token'] by auto
qed

text \<open>
  Two calls that reach the proxy, one with a token and one without, on different networks:
  the token is in the headers of the direct request and the proxy receives the same
  request both times.
\<close>

theorem proxy_request_without_token_witness:
  "fst (validateUser site_proxied ''alice'' (Some ''ghp_x''))
     = [\<lparr>url = readme_url ''alice'', headers = [(''Authorization'', ''token ghp_x'')]\<rparr>,
        \<lparr>url = proxy_url (readme_url ''alice''), headers = []\<rparr>]
   \<and> drop 1 (fst (validateUser site_proxy_failing ''alice'' None)) \<noteq> []
   \<and> drop 1 (fst (validateUser site_proxied ''alice'' (Some ''ghp_x'')))
     = drop 1 (fst (validateUser site_proxy_failing ''alice'' None))"
proof -
  have a: "fst (validateUser site_proxied ''alice'' (Some ''ghp_x''))
     = [\<lparr>url = readme_url ''alice'', headers = [(''Authorization'', ''token ghp_x'')]\<rparr>,
        \<lparr>url = proxy_url (readme_url ''alice''), headers = []\<rparr>]"
    by code_simp
  have b: "drop 1 (fst (validateUser site_proxy_failing ''alice'' None)) \<noteq> []"
    by code_simp
  from a have c: "drop 1 (fst (validateUser site_proxied ''alice'' (Some ''ghp_x''))) \<noteq> []"
    by simp
  from proxy_request_without_token [of site_proxied "''alice''" "Some ''ghp_x''"] c b
  have d: "drop 1 (fst (validateUser site_proxied ''alice'' (Some ''ghp_x'')))
     = drop 1 (fst (validateUser site_proxy_failing ''alice'' None))"
    by blast
  show ?thesis by (intro conjI a b d)
qed

section \<open>The empty list\<close>

text \<open>
  C10. On the empty list \<^verbatim>\<open>validateUsers\<close> returns the empty list and does nothing else: no
  batch (so no call of \<^verbatim>\<open>validateUser\<close>), no call of the progress callback, no delay.
\<close>

theorem validateUsers_empty: "validateUsers world [] token cb = ([], Inr [])"
  by (simp add: validateUsers_def loop_done)

end
